theory Spec2Isabelle
  imports Complex_Main
begin

section \<open>Data model\<close>

text \<open>
  The optimisation core of \<^verbatim>\<open>src/app.py\<close> (lines 129--138 and 314--452). Python
  floats are modelled as real numbers: a statement below is about the arithmetic the
  code writes down, read over the reals, and says nothing about rounding of IEEE doubles.
  The one exception is the score of line 339, which is also modelled with the rounding
  of doubles (\<open>score_double\<close>), for the monotonicity of the score.

  \<^verbatim>\<open>Fund\<close> is the frozen dataclass of the source.
\<close>

record Fund =
  sheet :: string
  name :: string
  provider :: string
  equity :: real
  abroad :: real
  fx :: real
  illiquid :: real
  sharpe :: real

text \<open>
  The dictionaries \<^verbatim>\<open>target\<close>, \<^verbatim>\<open>target_weights\<close> and the blended profile
  \<^verbatim>\<open>vals\<close> are only ever read and built at the literal keys \<^verbatim>\<open>'equity'\<close>,
  \<^verbatim>\<open>'abroad'\<close>, \<^verbatim>\<open>'fx'\<close>, \<^verbatim>\<open>'illiquid'\<close> and \<^verbatim>\<open>'sharpe'\<close>; the caller
  (lines 594--597) builds them with all their keys. They are total functions on these keys.
\<close>

datatype key = Equity | Abroad | Fx | Illiquid | Sharpe

type_synonym dict = "key \<Rightarrow> real"

text \<open>
  The keys are enumerated, so that two dictionaries can be compared entry by entry, as
  Python's \<^verbatim>\<open>==\<close> on dictionaries does.
\<close>

instantiation key :: enum
begin

definition enum_key :: "key list" where
  "enum_key = [Equity, Abroad, Fx, Illiquid, Sharpe]"

definition enum_all_key :: "(key \<Rightarrow> bool) \<Rightarrow> bool" where
  "enum_all_key P = (P Equity \<and> P Abroad \<and> P Fx \<and> P Illiquid \<and> P Sharpe)"

definition enum_ex_key :: "(key \<Rightarrow> bool) \<Rightarrow> bool" where
  "enum_ex_key P = (P Equity \<or> P Abroad \<or> P Fx \<or> P Illiquid \<or> P Sharpe)"

instance
proof
  have all: "x \<in> set (enum_class.enum :: key list)" for x
    by (cases x) (simp_all add: enum_key_def)
  then show "(UNIV :: key set) = set enum_class.enum"
    by blast
  show "distinct (enum_class.enum :: key list)"
    by (simp add: enum_key_def)
  show "enum_class.enum_all P = Ball (UNIV :: key set) P" for P
  proof
    assume "enum_class.enum_all P"
    then have "P x" for x
      by (cases x) (simp_all add: enum_all_key_def)
    then show "Ball UNIV P" by blast
  next
    assume "Ball UNIV P"
    then show "enum_class.enum_all P" by (simp add: enum_all_key_def)
  qed
  show "enum_class.enum_ex P = Bex (UNIV :: key set) P" for P
  proof
    assume "enum_class.enum_ex P"
    then show "Bex UNIV P" by (auto simp: enum_ex_key_def)
  next
    assume "Bex UNIV P"
    then obtain x where "P x" by blast
    then show "enum_class.enum_ex P"
      by (cases x) (simp_all add: enum_ex_key_def)
  qed
qed

end

text \<open>A candidate is the dictionary built by \<^verbatim>\<open>dict(funds=..., weights=..., ...)\<close>.\<close>

record candidate =
  c_funds :: "Fund list"
  c_weights :: "real list"
  c_vals :: dict
  c_deviation :: real
  c_svc :: real
  c_score :: real

section \<open>Blend evaluator and score function\<close>

text \<open>\<^verbatim>\<open>_blend\<close>, lines 314--321: each field is \<^verbatim>\<open>sum(w * f.field for w, f in zip(ws, fs))\<close>.\<close>

definition blend :: "Fund list \<Rightarrow> real list \<Rightarrow> dict" where
  "blend fs ws = (\<lambda>k. case k of
       Equity \<Rightarrow> sum_list (map (\<lambda>(w, f). w * equity f) (zip ws fs))
     | Abroad \<Rightarrow> sum_list (map (\<lambda>(w, f). w * abroad f) (zip ws fs))
     | Fx \<Rightarrow> sum_list (map (\<lambda>(w, f). w * fx f) (zip ws fs))
     | Illiquid \<Rightarrow> sum_list (map (\<lambda>(w, f). w * illiquid f) (zip ws fs))
     | Sharpe \<Rightarrow> sum_list (map (\<lambda>(w, f). w * sharpe f) (zip ws fs)))"

text \<open>\<^verbatim>\<open>_deviation\<close>, lines 324--328.\<close>

definition deviation :: "dict \<Rightarrow> dict \<Rightarrow> dict \<Rightarrow> real" where
  "deviation v t tw =
     tw Equity * \<bar>v Equity - t Equity\<bar>
   + tw Abroad * \<bar>v Abroad - t Abroad\<bar>
   + tw Fx * \<bar>v Fx - t Fx\<bar>
   + tw Illiquid * \<bar>v Illiquid - t Illiquid\<bar>"

text \<open>\<^verbatim>\<open>smap.get(p, dflt)\<close> on the service map, a dictionary from provider names to scores.\<close>

definition dict_get :: "(string \<rightharpoonup> real) \<Rightarrow> string \<Rightarrow> real \<Rightarrow> real" where
  "dict_get smap p dflt = (case smap p of None \<Rightarrow> dflt | Some s \<Rightarrow> s)"

text \<open>\<^verbatim>\<open>_svc\<close>, lines 331--333.\<close>

definition svc :: "string list \<Rightarrow> real list \<Rightarrow> (string \<rightharpoonup> real) \<Rightarrow> real \<Rightarrow> real" where
  "svc provs ws smap dflt = sum_list (map (\<lambda>(w, p). w * dict_get smap p dflt) (zip ws provs))"

text \<open>\<^verbatim>\<open>_score\<close>, lines 336--339: lower is better.\<close>

definition score :: "real \<Rightarrow> real \<Rightarrow> real \<Rightarrow> real \<Rightarrow> real \<Rightarrow> real" where
  "score dev sharpe_v svc_v sharpe_w service_w =
     dev - sharpe_w * sharpe_v - service_w * (svc_v / 100)"

section \<open>The score in double arithmetic\<close>

text \<open>
  Line 339 is evaluated in IEEE binary64: every operation returns its exact result
  rounded to the nearest double, a tie going to the even significand. The definition
  \<open>score\<close> above reads the line over the reals; \<open>score_double\<close> below rounds as the
  program does. The number of binary digits of a positive integer gives the binade of a
  real, the \<open>e\<close> with \<open>2 ^ e \<le> |x| < 2 ^ (e + 1)\<close>.
\<close>

function bit_length :: "int \<Rightarrow> nat" where
  "bit_length n = (if n \<le> 0 then 0 else Suc (bit_length (n div 2)))"
  by pat_completeness auto
termination
  by (relation "measure nat") auto

declare bit_length.simps [simp del]

definition binade :: "real \<Rightarrow> int" where
  "binade x = (if 1 \<le> \<bar>x\<bar> then int (bit_length \<lfloor>\<bar>x\<bar>\<rfloor>) - 1
               else - int (bit_length (\<lceil>1 / \<bar>x\<bar>\<rceil> - 1)))"

text \<open>Rounding to the nearest integer, a tie to the even one.\<close>

definition round_half_even :: "real \<Rightarrow> int" where
  "round_half_even y =
     (let f = \<lfloor>y\<rfloor>; d = y - of_int f
      in if d < 1 / 2 then f else if 1 / 2 < d then f + 1
         else if even f then f else f + 1)"

text \<open>
  The double nearest to a real: a significand of 53 binary digits in the binade of \<open>x\<close>,
  and multiples of \<open>2 ^ (- 1074)\<close> below \<open>2 ^ (- 1022)\<close> (the subnormal doubles). A result of
  magnitude \<open>2 ^ 1024\<close> or more, which the machine turns into an infinity, is outside this
  model: the exponent is not bounded above.
\<close>

definition round_double :: "real \<Rightarrow> real" where
  "round_double x =
     (if x = 0 then 0
      else let e = max (binade x) (- 1022)
           in of_int (round_half_even (x * 2 powi (52 - e))) * 2 powi (e - 52))"

text \<open>
  \<^verbatim>\<open>dev - sharpe_w * sharpe - service_w * (svc / 100.0)\<close> as Python evaluates it:
  the quotient and the two products are rounded, and so is each of the two subtractions,
  taken from left to right.
\<close>

definition score_double :: "real \<Rightarrow> real \<Rightarrow> real \<Rightarrow> real \<Rightarrow> real \<Rightarrow> real" where
  "score_double dev sharpe_v svc_v sharpe_w service_w =
     round_double (round_double (dev - round_double (sharpe_w * sharpe_v))
                   - round_double (service_w * round_double (svc_v / 100)))"

section \<open>Messages\<close>

text \<open>
  The two messages of \<^verbatim>\<open>compute\<close> are Hebrew text; a string is the list of the bytes of
  its UTF-8 encoding. \<^verbatim>\<open>str_int\<close> is the decimal rendering an f-string gives an integer.
\<close>

fun str_nat :: "nat \<Rightarrow> string" where
  "str_nat n = (if n < 10 then [char_of (48 + n)]
                else str_nat (n div 10) @ [char_of (48 + n mod 10)])"

declare str_nat.simps [simp del]

definition str_int :: "int \<Rightarrow> string" where
  "str_int i = (if i < 0 then CHR ''-'' # str_nat (nat (- i)) else str_nat (nat i))"

text \<open>Line 355: the f-string with \<^verbatim>\<open>{n}\<close> and \<^verbatim>\<open>{len(funds)}\<close> filled in.\<close>

definition insufficient_msg :: "int \<Rightarrow> nat \<Rightarrow> string" where
  "insufficient_msg n len =
     [
       CHR 0xD7, CHR 0xA0, CHR 0xD7, CHR 0x93, CHR 0xD7, CHR 0xA8, CHR 0xD7, CHR 0xA9,
       CHR 0xD7, CHR 0x95, CHR 0xD7, CHR 0xAA, CHR 0x20, CHR 0xD7, CHR 0x9C, CHR 0xD7,
       CHR 0xA4, CHR 0xD7, CHR 0x97, CHR 0xD7, CHR 0x95, CHR 0xD7, CHR 0xAA, CHR 0x20
     ] @ str_int n @ [
       CHR 0x20, CHR 0xD7, CHR 0xA7, CHR 0xD7, CHR 0xA8, CHR 0xD7, CHR 0xA0, CHR 0xD7,
       CHR 0x95, CHR 0xD7, CHR 0xAA, CHR 0x3B, CHR 0x20, CHR 0xD7, CHR 0x99, CHR 0xD7,
       CHR 0xA9, CHR 0x20, CHR 0xD7, CHR 0xA8, CHR 0xD7, CHR 0xA7, CHR 0x20
     ] @ str_int (int len) @ ''.''"

text \<open>Line 414.\<close>

definition no_valid_msg :: string where
  "no_valid_msg =
     [
       CHR 0xD7, CHR 0x9C, CHR 0xD7, CHR 0x90, CHR 0x20, CHR 0xD7, CHR 0xA0, CHR 0xD7,
       CHR 0x9E, CHR 0xD7, CHR 0xA6, CHR 0xD7, CHR 0x90, CHR 0xD7, CHR 0x95, CHR 0x20,
       CHR 0xD7, CHR 0xA9, CHR 0xD7, CHR 0x99, CHR 0xD7, CHR 0x9C, CHR 0xD7, CHR 0x95,
       CHR 0xD7, CHR 0x91, CHR 0xD7, CHR 0x99, CHR 0xD7, CHR 0x9D, CHR 0x20, CHR 0xD7,
       CHR 0xAA, CHR 0xD7, CHR 0xA7, CHR 0xD7, CHR 0x99, CHR 0xD7, CHR 0xA0, CHR 0xD7,
       CHR 0x99, CHR 0xD7, CHR 0x9D, CHR 0x2E, CHR 0x20, CHR 0xD7, CHR 0xA0, CHR 0xD7,
       CHR 0xA1, CHR 0xD7, CHR 0x94, CHR 0x20, CHR 0xD7, CHR 0x9C, CHR 0xD7, CHR 0x94,
       CHR 0xD7, CHR 0xA8, CHR 0xD7, CHR 0x97, CHR 0xD7, CHR 0x99, CHR 0xD7, CHR 0x91,
       CHR 0x20, CHR 0xD7, CHR 0x94, CHR 0xD7, CHR 0x92, CHR 0xD7, CHR 0x93, CHR 0xD7,
       CHR 0xA8, CHR 0xD7, CHR 0x95, CHR 0xD7, CHR 0xAA, CHR 0x20, CHR 0xD7, CHR 0x90,
       CHR 0xD7, CHR 0x95, CHR 0x20, CHR 0xD7, CHR 0x9C, CHR 0xD7, CHR 0x94, CHR 0xD7,
       CHR 0xA4, CHR 0xD7, CHR 0x97, CHR 0xD7, CHR 0x99, CHR 0xD7, CHR 0xAA, CHR 0x20,
       CHR 0xD7, CHR 0x9E, CHR 0xD7, CHR 0x92, CHR 0xD7, CHR 0x91, CHR 0xD7, CHR 0x9C,
       CHR 0xD7, CHR 0x95, CHR 0xD7, CHR 0xAA, CHR 0x2E
     ]"

section \<open>Candidate search\<close>

text \<open>
  \<^verbatim>\<open>itertools.combinations(funds, 2)\<close> and \<^verbatim>\<open>itertools.combinations(funds, 3)\<close>: the
  pairs and triples of positions \<open>i < j (< k)\<close>, in lexicographic order of the positions.
\<close>

fun combinations2 :: "'a list \<Rightarrow> ('a \<times> 'a) list" where
  "combinations2 [] = []"
| "combinations2 (x # xs) = map (Pair x) xs @ combinations2 xs"

fun combinations3 :: "'a list \<Rightarrow> ('a \<times> 'a \<times> 'a) list" where
  "combinations3 [] = []"
| "combinations3 (x # xs) = map (Pair x) (combinations2 xs) @ combinations3 xs"

text \<open>
  \<^verbatim>\<open>round(x, ndigits)\<close>: to the nearest multiple of \<open>10 ^ (- ndigits)\<close>, a tie to the even
  one.
\<close>

definition py_round :: "real \<Rightarrow> nat \<Rightarrow> real" where
  "py_round x ndigits =
     (let s = 10 ^ ndigits; y = x * s; f = \<lfloor>y\<rfloor>; d = y - of_int f;
          r = (if d < 1 / 2 then f else if 1 / 2 < d then f + 1
               else if even f then f else f + 1)
      in of_int r / s)"

text \<open>Line 371: \<^verbatim>\<open>grid = [i / 100.0 for i in range(0, 101)]\<close>.\<close>

definition grid :: "real list" where
  "grid = map (\<lambda>i. real i / 100) [0..<101]"

text \<open>Lines 390--391: \<^verbatim>\<open>step = 0.05\<close> and the 21 rounded multiples of it.\<close>

definition step :: real where
  "step = 5 / 100"

definition grid1 :: "real list" where
  "grid1 = map (\<lambda>i. py_round (real i * step) 3) [0..<nat \<lfloor>1 / step\<rfloor> + 1]"

text \<open>
  Lines 382--384 and 407--409: \<^verbatim>\<open>if best is None or sc < best['score']: best = dict(...)\<close>.
\<close>

definition keep_best :: "candidate option \<Rightarrow> candidate \<Rightarrow> candidate option" where
  "keep_best best c =
     (case best of None \<Rightarrow> Some c
      | Some b \<Rightarrow> if c_score c < c_score b then Some c else Some b)"

text \<open>Lines 361--367: the body of the loop for \<open>n = 1\<close>.\<close>

definition single_candidate ::
  "dict \<Rightarrow> dict \<Rightarrow> real \<Rightarrow> real \<Rightarrow> (string \<rightharpoonup> real) \<Rightarrow> real \<Rightarrow> Fund \<Rightarrow> candidate" where
  "single_candidate target target_weights sharpe_w service_w svc_map dflt_svc f =
     (let v = blend [f] [1];
          dev = deviation v target target_weights;
          sv = dict_get svc_map (provider f) dflt_svc;
          sc = score dev (v Sharpe) sv sharpe_w service_w
      in \<lparr>c_funds = [f], c_weights = [1], c_vals = v, c_deviation = dev,
          c_svc = sv, c_score = sc\<rparr>)"

text \<open>
  Lines 377--384: the candidate the loop over \<^verbatim>\<open>grid\<close> evaluates at the weight
  \<open>w1\<close> of a pair.
\<close>

definition pair_candidate ::
  "dict \<Rightarrow> dict \<Rightarrow> real \<Rightarrow> real \<Rightarrow> (string \<rightharpoonup> real) \<Rightarrow> real \<Rightarrow> Fund \<Rightarrow> Fund \<Rightarrow>
   real \<Rightarrow> candidate" where
  "pair_candidate target target_weights sharpe_w service_w svc_map dflt_svc f1 f2 w1 =
     (let w2 = 1 - w1;
          v = blend [f1, f2] [w1, w2];
          dev = deviation v target target_weights;
          sv = svc [provider f1, provider f2] [w1, w2] svc_map dflt_svc;
          sc = score dev (v Sharpe) sv sharpe_w service_w
      in \<lparr>c_funds = [f1, f2], c_weights = [w1, w2], c_vals = v, c_deviation = dev,
          c_svc = sv, c_score = sc\<rparr>)"

text \<open>Lines 375--376: \<^verbatim>\<open>best = None\<close>, then the loop over the 101 weights.\<close>

definition best_pair ::
  "dict \<Rightarrow> dict \<Rightarrow> real \<Rightarrow> real \<Rightarrow> (string \<rightharpoonup> real) \<Rightarrow> real \<Rightarrow> Fund \<Rightarrow> Fund \<Rightarrow>
   candidate option" where
  "best_pair target target_weights sharpe_w service_w svc_map dflt_svc f1 f2 =
     fold (\<lambda>w1 best. keep_best best
             (pair_candidate target target_weights sharpe_w service_w svc_map dflt_svc f1 f2 w1))
       grid None"

text \<open>Lines 402--409: the candidate evaluated at the weights \<open>w1\<close>, \<open>w2\<close>, \<open>w3\<close> of a triple.\<close>

definition triple_candidate ::
  "dict \<Rightarrow> dict \<Rightarrow> real \<Rightarrow> real \<Rightarrow> (string \<rightharpoonup> real) \<Rightarrow> real \<Rightarrow> Fund \<Rightarrow> Fund \<Rightarrow> Fund \<Rightarrow>
   real \<Rightarrow> real \<Rightarrow> real \<Rightarrow> candidate" where
  "triple_candidate target target_weights sharpe_w service_w svc_map dflt_svc f1 f2 f3 w1 w2 w3 =
     (let v = blend [f1, f2, f3] [w1, w2, w3];
          dev = deviation v target target_weights;
          sv = svc [provider f1, provider f2, provider f3] [w1, w2, w3] svc_map dflt_svc;
          sc = score dev (v Sharpe) sv sharpe_w service_w
      in \<lparr>c_funds = [f1, f2, f3], c_weights = [w1, w2, w3], c_vals = v,
          c_deviation = dev, c_svc = sv, c_score = sc\<rparr>)"

text \<open>Line 399: the test of \<open>w3\<close> against the range from 0 to 1, with its tolerance.\<close>

definition out_of_range :: "real \<Rightarrow> bool" where
  "out_of_range w3 = (w3 < - (1 / 10 ^ 9) \<or> w3 > 1 + 1 / 10 ^ 9)"

text \<open>Line 401: \<^verbatim>\<open>max(0.0, min(1.0, w3))\<close>.\<close>

definition clamp01 :: "real \<Rightarrow> real" where
  "clamp01 w3 = max 0 (min 1 w3)"

text \<open>
  Lines 398--409: the body of the inner loop for a triple. A weight \<open>w3\<close> out of range
  is the \<^verbatim>\<open>continue\<close>: \<open>best\<close> is left as it is.
\<close>

definition triple_step ::
  "dict \<Rightarrow> dict \<Rightarrow> real \<Rightarrow> real \<Rightarrow> (string \<rightharpoonup> real) \<Rightarrow> real \<Rightarrow> Fund \<Rightarrow> Fund \<Rightarrow> Fund \<Rightarrow>
   real \<Rightarrow> real \<Rightarrow> candidate option \<Rightarrow> candidate option" where
  "triple_step target target_weights sharpe_w service_w svc_map dflt_svc f1 f2 f3 w1 w2 best =
     (let w3 = py_round (1 - w1 - w2) 3
      in if out_of_range w3 then best
         else keep_best best
                (triple_candidate target target_weights sharpe_w service_w svc_map dflt_svc
                   f1 f2 f3 w1 w2 (clamp01 w3)))"

text \<open>Lines 395--397: \<^verbatim>\<open>best = None\<close>, then the two nested loops over \<^verbatim>\<open>grid1\<close>.\<close>

definition best_triple ::
  "dict \<Rightarrow> dict \<Rightarrow> real \<Rightarrow> real \<Rightarrow> (string \<rightharpoonup> real) \<Rightarrow> real \<Rightarrow> Fund \<Rightarrow> Fund \<Rightarrow> Fund \<Rightarrow>
   candidate option" where
  "best_triple target target_weights sharpe_w service_w svc_map dflt_svc f1 f2 f3 =
     fold (\<lambda>w1. fold (triple_step target target_weights sharpe_w service_w svc_map dflt_svc
                         f1 f2 f3 w1) grid1) grid1 None"

text \<open>
  Lines 372--374: the pairs the loop does not skip, which are all the pairs unless
  \<^verbatim>\<open>same_prov_only\<close> is set.
\<close>

definition eligible_pairs :: "bool \<Rightarrow> Fund list \<Rightarrow> (Fund \<times> Fund) list" where
  "eligible_pairs same_prov_only funds =
     filter (\<lambda>(f1, f2). \<not> (same_prov_only \<and> provider f1 \<noteq> provider f2)) (combinations2 funds)"


text \<open>\<^verbatim>\<open>if best: candidates.append(best)\<close>: a candidate dictionary is never empty.\<close>

definition append_best :: "candidate option \<Rightarrow> candidate list" where
  "append_best best = (case best of None \<Rightarrow> [] | Some b \<Rightarrow> [b])"

text \<open>
  Lines 357--411: the candidate pool, in the order the loops append to it. The branch for
  three funds is the \<^verbatim>\<open>else\<close> of the source: it is taken for every \<open>n\<close> other than 1
  and 2.
\<close>

definition candidate_pool ::
  "Fund list \<Rightarrow> dict \<Rightarrow> dict \<Rightarrow> real \<Rightarrow> real \<Rightarrow> (string \<rightharpoonup> real) \<Rightarrow> real \<Rightarrow> bool \<Rightarrow> int \<Rightarrow>
   candidate list" where
  "candidate_pool funds target target_weights sharpe_w service_w svc_map dflt_svc
       same_prov_only n =
     (if n = 1 then
        map (single_candidate target target_weights sharpe_w service_w svc_map dflt_svc) funds
      else if n = 2 then
        concat (map (\<lambda>(f1, f2).
            if same_prov_only \<and> provider f1 \<noteq> provider f2 then []
            else append_best
                   (best_pair target target_weights sharpe_w service_w svc_map dflt_svc f1 f2))
          (combinations2 funds))
      else
        concat (map (\<lambda>(f1, f2, f3).
            if same_prov_only \<and> \<not> (provider f1 = provider f2 \<and> provider f2 = provider f3) then []
            else append_best
                   (best_triple target target_weights sharpe_w service_w svc_map dflt_svc
                      f1 f2 f3))
          (combinations3 funds)))"

section \<open>Diversified selector\<close>

definition prov_set :: "candidate \<Rightarrow> string set" where
  "prov_set c = set (map provider (c_funds c))"

definition names_set :: "candidate \<Rightarrow> string set" where
  "names_set c = set (map name (c_funds c))"

text \<open>
  Lines 423--434, the strict pass: the loop over the sorted candidates with its state
  \<^verbatim>\<open>chosen\<close>, \<^verbatim>\<open>used_prov\<close>, \<^verbatim>\<open>used_names\<close>; reaching three chosen is the
  \<^verbatim>\<open>break\<close>.
\<close>

fun strict_pass ::
  "bool \<Rightarrow> candidate list \<Rightarrow> candidate list \<Rightarrow> string set \<Rightarrow> string set \<Rightarrow>
   candidate list \<times> string set \<times> string set" where
  "strict_pass same_prov_only [] chosen used_prov used_names = (chosen, used_prov, used_names)"
| "strict_pass same_prov_only (c # cs) chosen used_prov used_names =
     (if used_names \<inter> names_set c \<noteq> {} then
        strict_pass same_prov_only cs chosen used_prov used_names
      else if \<not> same_prov_only \<and> used_prov \<inter> prov_set c \<noteq> {} then
        strict_pass same_prov_only cs chosen used_prov used_names
      else if length (chosen @ [c]) = 3 then
        (chosen @ [c], used_prov \<union> prov_set c, used_names \<union> names_set c)
      else
        strict_pass same_prov_only cs (chosen @ [c]) (used_prov \<union> prov_set c)
          (used_names \<union> names_set c))"

text \<open>Lines 438--447, the relaxed pass over the same sorted list.\<close>

fun relaxed_pass ::
  "candidate list \<Rightarrow> candidate list \<Rightarrow> string set \<Rightarrow> candidate list \<times> string set" where
  "relaxed_pass [] chosen used_names = (chosen, used_names)"
| "relaxed_pass (c # cs) chosen used_names =
     (if c \<in> set chosen then relaxed_pass cs chosen used_names
      else if used_names \<inter> names_set c \<noteq> {} then relaxed_pass cs chosen used_names
      else if length (chosen @ [c]) = 3 then (chosen @ [c], used_names \<union> names_set c)
      else relaxed_pass cs (chosen @ [c]) (used_names \<union> names_set c))"

text \<open>Lines 419--447: both passes; the second runs when the first chose fewer than three.\<close>

definition two_passes :: "bool \<Rightarrow> candidate list \<Rightarrow> candidate list" where
  "two_passes same_prov_only candidates =
     (case strict_pass same_prov_only candidates [] {} {} of
        (chosen, used_prov, used_names) \<Rightarrow>
          if length chosen < 3 then fst (relaxed_pass candidates chosen used_names)
          else chosen)"

text \<open>Lines 449--450: \<^verbatim>\<open>if not chosen: chosen = candidates[:3]\<close>.\<close>

definition diversified_select :: "bool \<Rightarrow> candidate list \<Rightarrow> candidate list" where
  "diversified_select same_prov_only candidates =
     (let chosen = two_passes same_prov_only candidates
      in if chosen = [] then take 3 candidates else chosen)"

text \<open>Two candidates that have no fund name in common.\<close>

abbreviation disjoint_names :: "candidate \<Rightarrow> candidate \<Rightarrow> bool" where
  "disjoint_names c d \<equiv> names_set c \<inter> names_set d = {}"

section \<open>The entry point\<close>

text \<open>
  \<^verbatim>\<open>compute\<close>, lines 342--452. \<^verbatim>\<open>candidates.sort(key=...)\<close> is a stable sort by the
  score.
\<close>

definition compute ::
  "Fund list \<Rightarrow> dict \<Rightarrow> dict \<Rightarrow> real \<Rightarrow> real \<Rightarrow> (string \<rightharpoonup> real) \<Rightarrow> real \<Rightarrow> bool \<Rightarrow> int \<Rightarrow>
   candidate list \<times> string" where
  "compute funds target target_weights sharpe_w service_w svc_map dflt_svc same_prov_only n =
     (if int (length funds) < n then ([], insufficient_msg n (length funds))
      else
        (let candidates = candidate_pool funds target target_weights sharpe_w service_w
                            svc_map dflt_svc same_prov_only n
         in if candidates = [] then ([], no_valid_msg)
            else (diversified_select same_prov_only (sort_key c_score candidates), [])))"

section \<open>An example catalog\<close>

text \<open>
  The two funds, the target and the unit weights of the end-to-end scenario for two funds
  of the specification, and a third fund.
\<close>

definition fund_x :: Fund where
  "fund_x = \<lparr>sheet = ''S1'', name = ''FundX'', provider = ''A'',
     equity = 50, abroad = 50, fx = 20, illiquid = 5, sharpe = 1\<rparr>"

definition fund_y :: Fund where
  "fund_y = \<lparr>sheet = ''S1'', name = ''FundY'', provider = ''B'',
     equity = 30, abroad = 70, fx = 40, illiquid = 10, sharpe = 8 / 10\<rparr>"

definition fund_z :: Fund where
  "fund_z = \<lparr>sheet = ''S2'', name = ''FundZ'', provider = ''C'',
     equity = 40, abroad = 40, fx = 10, illiquid = 0, sharpe = 1 / 2\<rparr>"

definition example_target :: dict where
  "example_target = (\<lambda>k. case k of Equity \<Rightarrow> 40 | Abroad \<Rightarrow> 60 | Fx \<Rightarrow> 30
                       | Illiquid \<Rightarrow> 7 | Sharpe \<Rightarrow> 0)"

definition unit_weights :: dict where
  "unit_weights = (\<lambda>k. 1)"

section \<open>Properties of the evaluator and the score\<close>

lemma blend_single: "blend [f] [w] k =
  w * (case k of Equity \<Rightarrow> equity f | Abroad \<Rightarrow> abroad f | Fx \<Rightarrow> fx f
        | Illiquid \<Rightarrow> illiquid f | Sharpe \<Rightarrow> sharpe f)"
  by (cases k) (simp_all add: blend_def)

text \<open>
  C8: blending the one-element list \<open>[f]\<close> with the weight vector \<open>[1.0]\<close> gives a profile
  whose equity, abroad, fx, illiquid and sharpe entries are those of \<open>f\<close>.
\<close>

theorem C8_blend_identity:
  "blend [f] [1] Equity = equity f \<and> blend [f] [1] Abroad = abroad f \<and>
   blend [f] [1] Fx = fx f \<and> blend [f] [1] Illiquid = illiquid f \<and>
   blend [f] [1] Sharpe = sharpe f"
  by (simp add: blend_single)

text \<open>
  C4: the deviation is the sum, over the four keys equity, abroad, fx and illiquid, of
  \<open>weight[k] * |profile[k] - target[k]|\<close>, and the score is the deviation minus
  \<open>sharpe_weight * sharpe\<close> minus \<open>service_weight * (blended service / 100)\<close>; the
  candidates of the three searches store the score computed so from the deviation, the
  blended sharpe and the blended service they store.
\<close>

theorem C4_deviation_and_score:
  "deviation v t tw = (\<Sum>k \<leftarrow> [Equity, Abroad, Fx, Illiquid]. tw k * \<bar>v k - t k\<bar>) \<and>
   deviation v t tw = (\<Sum>k \<in> {Equity, Abroad, Fx, Illiquid}. tw k * \<bar>v k - t k\<bar>) \<and>
   score (deviation v t tw) (v Sharpe) (svc provs ws smap dflt) sharpe_w service_w =
     deviation v t tw - sharpe_w * v Sharpe - service_w * (svc provs ws smap dflt / 100) \<and>
   svc provs ws smap dflt = (\<Sum>(w, p) \<leftarrow> zip ws provs. w * dict_get smap p dflt) \<and>
   (c = single_candidate t tw sharpe_w service_w smap dflt f1 \<or>
    c = pair_candidate t tw sharpe_w service_w smap dflt f1 f2 w1 \<or>
    c = triple_candidate t tw sharpe_w service_w smap dflt f1 f2 f3 w1 w2 w3 \<longrightarrow>
      c_vals c = blend (c_funds c) (c_weights c) \<and>
      c_deviation c = deviation (c_vals c) t tw \<and>
      c_svc c = svc (map provider (c_funds c)) (c_weights c) smap dflt \<and>
      c_score c = c_deviation c - sharpe_w * c_vals c Sharpe - service_w * (c_svc c / 100))"
  by (auto simp: deviation_def score_def svc_def single_candidate_def pair_candidate_def
        triple_candidate_def Let_def)

theorem C4_deviation_and_score_witness:
  "deviation example_target example_target unit_weights = 0 \<and>
   score 2 1 70 (1 / 2) 1 = 8 / 10 \<and>
   c_score (single_candidate example_target unit_weights 0 0 Map.empty 70 fund_x) = 32 \<and>
   c_score (single_candidate example_target unit_weights 0 0 Map.empty 70 fund_x) =
     c_deviation (single_candidate example_target unit_weights 0 0 Map.empty 70 fund_x)
     - 0 * c_vals (single_candidate example_target unit_weights 0 0 Map.empty 70 fund_x) Sharpe
     - 0 * (c_svc (single_candidate example_target unit_weights 0 0 Map.empty 70 fund_x) / 100)"
proof -
  have a: "deviation example_target example_target unit_weights = 0"
    using C4_deviation_and_score [where v = example_target and t = example_target
        and tw = unit_weights and c = "single_candidate example_target unit_weights 0 0
          Map.empty 70 fund_x" and sharpe_w = 0 and service_w = 0 and smap = Map.empty
        and dflt = 70 and ?f1.0 = fund_x]
    by simp
  have b: "score 2 1 70 (1 / 2) 1 = 8 / 10"
    by (simp add: score_def)
  have c: "c_score (single_candidate example_target unit_weights 0 0 Map.empty 70 fund_x) = 32"
    by (simp add: single_candidate_def blend_def deviation_def score_def Let_def fund_x_def
          example_target_def unit_weights_def)
  from C4_deviation_and_score [where t = example_target and tw = unit_weights
      and c = "single_candidate example_target unit_weights 0 0 Map.empty 70 fund_x"
      and sharpe_w = 0 and service_w = 0 and smap = Map.empty and dflt = 70
      and ?f1.0 = fund_x] a b c
  show ?thesis by blast
qed

text \<open>
  Over the reals the score grows with the deviation and falls when either product
  \<open>sharpe_weight * sharpe\<close> or \<open>service_weight * blended service\<close> grows. This is a fact of
  the formula in exact arithmetic only.
\<close>

lemma score_monotone_exact:
  "(dev \<le> dev' \<longrightarrow> score dev sh sv sharpe_w service_w \<le> score dev' sh sv sharpe_w service_w) \<and>
   (sharpe_w * sh \<le> sharpe_w' * sh' \<longrightarrow>
      score dev sh' sv sharpe_w' service_w \<le> score dev sh sv sharpe_w service_w) \<and>
   (service_w * sv \<le> service_w' * sv' \<longrightarrow>
      score dev sh sv' sharpe_w service_w' \<le> score dev sh sv sharpe_w service_w)"
  by (simp add: score_def)

section \<open>Properties of the score in double arithmetic\<close>

lemma bit_length_bounds:
  "0 < n \<Longrightarrow> 2 ^ (bit_length n - 1) \<le> n \<and> n < 2 ^ bit_length n"
proof (induction n rule: bit_length.induct)
  case (1 n)
  show ?case
  proof (cases "n div 2 \<le> 0")
    case True
    with 1 have "n = 1" by arith
    then show ?thesis by (simp add: bit_length.simps)
  next
    case False
    then have p: "0 < n div 2" by simp
    with 1 have ih: "2 ^ (bit_length (n div 2) - 1) \<le> n div 2" "n div 2 < 2 ^ bit_length (n div 2)"
      by auto
    have pos: "0 < bit_length (n div 2)" using p by (simp add: bit_length.simps[of "n div 2"])
    have b: "bit_length n = Suc (bit_length (n div 2))" using 1 by (simp add: bit_length.simps[of n])
    have "(2::int) ^ (bit_length n - 1) = 2 * 2 ^ (bit_length (n div 2) - 1)"
      using pos b by (cases "bit_length (n div 2)") auto
    also have "\<dots> \<le> 2 * (n div 2)" using ih(1) by simp
    also have "\<dots> \<le> n" by arith
    finally have lo: "2 ^ (bit_length n - 1) \<le> n" .
    have "n < 2 * (n div 2) + 2" by arith
    also have "\<dots> \<le> 2 * 2 ^ bit_length (n div 2)" using ih(2) by simp
    finally have "n < 2 ^ bit_length n" by (simp add: b)
    with lo show ?thesis by simp
  qed
qed

lemma bit_length_pos: "0 < n \<Longrightarrow> 0 < bit_length n"
  by (simp add: bit_length.simps[of n])

lemma binade_bounds:
  assumes "x \<noteq> 0"
  shows "2 powi binade x \<le> \<bar>x\<bar> \<and> \<bar>x\<bar> < 2 powi (binade x + 1)"
proof (cases "1 \<le> \<bar>x\<bar>")
  case True
  define n where "n = \<lfloor>\<bar>x\<bar>\<rfloor>"
  define k where "k = bit_length n"
  have n: "0 < n" using True by (simp add: n_def)
  from bit_length_bounds[OF n] have b: "2 ^ (k - 1) \<le> n" "n < 2 ^ k"
    by (simp_all add: k_def)
  have k: "0 < k" using bit_length_pos[OF n] by (simp add: k_def)
  have e: "binade x = int (k - 1)" using True k by (simp add: binade_def n_def k_def)
  have "(2::real) ^ (k - 1) = of_int (2 ^ (k - 1))" by simp
  also have "\<dots> \<le> of_int n" using b(1) by (simp only: of_int_le_iff)
  also have "\<dots> \<le> \<bar>x\<bar>" by (simp add: n_def)
  finally have lo: "2 powi binade x \<le> \<bar>x\<bar>" by (simp add: e)
  have "n + 1 \<le> 2 ^ k" using b(2) by simp
  then have "(of_int (n + 1) :: real) \<le> of_int (2 ^ k)" by (simp only: of_int_le_iff)
  moreover have "\<bar>x\<bar> < of_int (n + 1)" by (simp add: n_def)
  ultimately have "\<bar>x\<bar> < 2 ^ k" by simp
  moreover have "binade x + 1 = int k" using e k by simp
  ultimately have "\<bar>x\<bar> < 2 powi (binade x + 1)" by simp
  with lo show ?thesis by simp
next
  case False
  define r where "r = 1 / \<bar>x\<bar>"
  define n where "n = \<lceil>r\<rceil> - 1"
  define k where "k = bit_length n"
  have xp: "0 < \<bar>x\<bar>" using assms by simp
  have r1: "1 < r" using False xp by (simp add: r_def)
  then have n: "0 < n" by (simp add: n_def)
  from bit_length_bounds[OF n] have b: "2 ^ (k - 1) \<le> n" "n < 2 ^ k"
    by (simp_all add: k_def)
  have k: "0 < k" using bit_length_pos[OF n] by (simp add: k_def)
  have e: "binade x = - int k" using False by (simp add: binade_def n_def k_def r_def)
  have "r \<le> of_int (n + 1)" by (simp add: n_def)
  also have "(of_int (n + 1) :: real) \<le> of_int (2 ^ k)"
    using b(2) by (simp only: of_int_le_iff)
  finally have rk: "r \<le> 2 ^ k" by simp
  have "(2::real) ^ (k - 1) = of_int (2 ^ (k - 1))" by simp
  also have "\<dots> \<le> of_int n" using b(1) by (simp only: of_int_le_iff)
  also have "\<dots> < r" by (simp add: n_def) linarith
  finally have kr: "2 ^ (k - 1) < r" .
  have x: "\<bar>x\<bar> = 1 / r" using xp by (simp add: r_def)
  have rp: "0 < r" using r1 by simp
  have "1 / 2 ^ k \<le> 1 / r" using rk rp by (simp add: frac_le)
  then have lo: "2 powi binade x \<le> \<bar>x\<bar>"
    by (simp add: e x power_int_minus_divide)
  have "1 / r < 1 / 2 ^ (k - 1)" using kr by (simp add: frac_less2)
  moreover have "binade x + 1 = - int (k - 1)" using e k by simp
  ultimately have "\<bar>x\<bar> < 2 powi (binade x + 1)"
    by (simp add: x power_int_minus_divide)
  with lo show ?thesis by simp
qed

lemma binade_mono:
  assumes "x \<noteq> 0" "\<bar>x\<bar> \<le> \<bar>y\<bar>"
  shows "binade x \<le> binade y"
proof (rule ccontr)
  assume "\<not> binade x \<le> binade y"
  then have "binade y + 1 \<le> binade x" by simp
  then have "(2::real) powi (binade y + 1) \<le> 2 powi binade x"
    by (intro power_int_increasing) simp_all
  moreover have "y \<noteq> 0" using assms by auto
  ultimately show False
    using binade_bounds[OF assms(1)] binade_bounds[of y] assms(2) by linarith
qed

lemma binade_minus: "binade (- x) = binade x"
  by (simp add: binade_def)

lemma round_half_even_mono:
  assumes "y \<le> z"
  shows "round_half_even y \<le> round_half_even z"
proof (cases "\<lfloor>y\<rfloor> = \<lfloor>z\<rfloor>")
  case True
  then show ?thesis using assms
    by (auto simp: round_half_even_def Let_def)
next
  case False
  then have "\<lfloor>y\<rfloor> + 1 \<le> \<lfloor>z\<rfloor>" using floor_mono[OF assms] by linarith
  moreover have "round_half_even y \<le> \<lfloor>y\<rfloor> + 1" by (simp add: round_half_even_def Let_def)
  moreover have "\<lfloor>z\<rfloor> \<le> round_half_even z" by (simp add: round_half_even_def Let_def)
  ultimately show ?thesis by linarith
qed

lemma round_half_even_of_int: "round_half_even (of_int n) = n"
  by (simp add: round_half_even_def)

lemma round_half_even_minus: "round_half_even (- y) = - round_half_even y"
proof (cases "y = of_int \<lfloor>y\<rfloor>")
  case True
  then obtain n where "y = of_int n" ..
  then have "round_half_even (- y) = round_half_even (of_int (- n))" by simp
  then show ?thesis unfolding round_half_even_of_int using \<open>y = of_int n\<close>
    by (simp add: round_half_even_of_int)
next
  case False
  then have f: "\<lfloor>- y\<rfloor> = - \<lfloor>y\<rfloor> - 1"
    by (metis floor_minus ceiling_altdef diff_minus_eq_add minus_diff_eq add.commute)
  show ?thesis using False unfolding round_half_even_def Let_def f
    by (auto simp: field_simps)
qed

lemma pow2_pos: "0 < (2::real) powi k"
  by simp

lemma pow2_mult: "a + b = c \<Longrightarrow> (2::real) powi a * 2 powi b = 2 powi c"
  by (auto simp: power_int_add)

lemma pow2_le: "a \<le> b \<Longrightarrow> (2::real) powi a \<le> 2 powi b"
  by (rule power_int_increasing) simp_all

lemma round_double_minus: "round_double (- x) = - round_double x"
  by (simp add: round_double_def binade_minus round_half_even_minus Let_def)

lemma round_half_even_nonneg: "0 \<le> y \<Longrightarrow> 0 \<le> round_half_even y"
  using round_half_even_mono[of 0 y] round_half_even_of_int[of 0] by simp

lemma round_double_nonneg:
  assumes "0 \<le> x"
  shows "0 \<le> round_double x"
proof (cases "x = 0")
  case True
  then show ?thesis by (simp add: round_double_def)
next
  case False
  let ?e = "max (binade x) (- 1022)"
  have "0 \<le> x * 2 powi (52 - ?e)" using assms pow2_pos[of "52 - ?e"] by simp
  then have "0 \<le> round_half_even (x * 2 powi (52 - ?e))" by (rule round_half_even_nonneg)
  then have "0 \<le> real_of_int (round_half_even (x * 2 powi (52 - ?e))) * 2 powi (?e - 52)"
    using pow2_pos[of "?e - 52"] by simp
  then show ?thesis using False by (simp add: round_double_def Let_def)
qed

lemma round_double_mono_pos:
  assumes "0 < x" "x \<le> y"
  shows "round_double x \<le> round_double y"
proof -
  let ?e = "max (binade x) (- 1022)"
  let ?f = "max (binade y) (- 1022)"
  have x0: "x \<noteq> 0" and y0: "y \<noteq> 0" and yp: "0 < y" using assms by auto
  have rx: "round_double x = real_of_int (round_half_even (x * 2 powi (52 - ?e))) * 2 powi (?e - 52)"
    using x0 by (simp add: round_double_def Let_def)
  have ry: "round_double y = real_of_int (round_half_even (y * 2 powi (52 - ?f))) * 2 powi (?f - 52)"
    using y0 by (simp add: round_double_def Let_def)
  have "binade x \<le> binade y" using binade_mono[OF x0, of y] assms by simp
  then have ef: "?e \<le> ?f" by simp
  show ?thesis
  proof (cases "?e = ?f")
    case True
    have "x * 2 powi (52 - ?e) \<le> y * 2 powi (52 - ?e)"
      using assms(2) pow2_pos[of "52 - ?e"] by simp
    then have "round_half_even (x * 2 powi (52 - ?e)) \<le> round_half_even (y * 2 powi (52 - ?e))"
      by (rule round_half_even_mono)
    then have "real_of_int (round_half_even (x * 2 powi (52 - ?e))) * 2 powi (?e - 52)
             \<le> real_of_int (round_half_even (y * 2 powi (52 - ?e))) * 2 powi (?e - 52)"
      using pow2_pos[of "?e - 52"] by simp
    then show ?thesis unfolding rx ry True[symmetric] .
  next
    case False
    with ef have lt: "?e < ?f" by linarith
    then have fb: "?f = binade y" by linarith
    have "x < 2 powi (binade x + 1)" using binade_bounds[OF x0] assms(1) by simp
    also have "\<dots> \<le> 2 powi (?e + 1)" by (rule pow2_le) linarith
    finally have xu: "x < 2 powi (?e + 1)" .
    have "x * 2 powi (52 - ?e) \<le> 2 powi (?e + 1) * 2 powi (52 - ?e)"
      using xu pow2_pos[of "52 - ?e"] by simp
    also have "\<dots> = 2 powi 53" by (rule pow2_mult) linarith
    also have "\<dots> = real_of_int (2 ^ 53)" by simp
    finally have "round_half_even (x * 2 powi (52 - ?e)) \<le> round_half_even (real_of_int (2 ^ 53))"
      by (rule round_half_even_mono)
    then have "real_of_int (round_half_even (x * 2 powi (52 - ?e))) \<le> 2 powi 53"
      unfolding round_half_even_of_int by (metis of_int_le_iff of_int_numeral of_int_power power_int_numeral)
    then have "round_double x \<le> 2 powi 53 * 2 powi (?e - 52)"
      unfolding rx using pow2_pos[of "?e - 52"] by simp
    also have "\<dots> = 2 powi (?e + 1)" by (rule pow2_mult) linarith
    also have "\<dots> \<le> 2 powi ?f" by (rule pow2_le) (use lt in linarith)
    finally have up: "round_double x \<le> 2 powi ?f" .
    have "2 powi ?f \<le> y" using binade_bounds[OF y0] yp fb by simp
    then have "2 powi ?f * 2 powi (52 - ?f) \<le> y * 2 powi (52 - ?f)"
      using pow2_pos[of "52 - ?f"] by simp
    moreover have "(2::real) powi ?f * 2 powi (52 - ?f) = 2 powi 52"
      by (rule pow2_mult) linarith
    moreover have "(2::real) powi 52 = real_of_int (2 ^ 52)" by simp
    ultimately have "real_of_int (2 ^ 52) \<le> y * 2 powi (52 - ?f)" by simp
    then have "round_half_even (real_of_int (2 ^ 52)) \<le> round_half_even (y * 2 powi (52 - ?f))"
      by (rule round_half_even_mono)
    then have "2 powi 52 \<le> real_of_int (round_half_even (y * 2 powi (52 - ?f)))"
      unfolding round_half_even_of_int by (metis of_int_le_iff of_int_numeral of_int_power power_int_numeral)
    then have "2 powi 52 * 2 powi (?f - 52) \<le> round_double y"
      unfolding ry using pow2_pos[of "?f - 52"] by simp
    moreover have "(2::real) powi 52 * 2 powi (?f - 52) = 2 powi ?f"
      by (rule pow2_mult) linarith
    ultimately have "2 powi ?f \<le> round_double y" by simp
    with up show ?thesis by simp
  qed
qed

lemma round_double_mono:
  assumes "x \<le> y"
  shows "round_double x \<le> round_double y"
proof -
  consider "0 < x" | "x = 0" | "x < 0" "0 \<le> y" | "x < 0" "y < 0" by linarith
  then show ?thesis
  proof cases
    case 1
    then show ?thesis using assms by (rule round_double_mono_pos)
  next
    case 2
    then show ?thesis using assms round_double_nonneg[of y] by (simp add: round_double_def)
  next
    case 3
    have "0 \<le> round_double (- x)" using 3(1) by (intro round_double_nonneg) simp
    then have "round_double x \<le> 0" by (simp add: round_double_minus)
    with round_double_nonneg[OF 3(2)] show ?thesis by simp
  next
    case 4
    have "round_double (- y) \<le> round_double (- x)"
      using 4 assms by (intro round_double_mono_pos) simp_all
    then show ?thesis by (simp add: round_double_minus)
  qed
qed

text \<open>Unfolding the definitions evaluates the rounding on a numeral.\<close>

lemmas double_eval = score_double_def round_double_def binade_def bit_length.simps
  round_half_even_def Let_def

text \<open>
  C9, as the code has it: the score computed in double arithmetic does not decrease when
  the deviation grows (sharpe and service terms fixed), and does not increase when the
  product \<open>sharpe_weight * sharpe\<close> grows or when \<open>service_weight * (blended service / 100)\<close>
  grows, the quotient being the rounded one the code multiplies (deviation fixed).
\<close>

theorem C9_score_monotone:
  "(dev \<le> dev' \<longrightarrow>
      score_double dev sh sv sharpe_w service_w \<le> score_double dev' sh sv sharpe_w service_w) \<and>
   (sharpe_w * sh \<le> sharpe_w' * sh' \<longrightarrow>
      score_double dev sh' sv sharpe_w' service_w \<le> score_double dev sh sv sharpe_w service_w) \<and>
   (service_w * round_double (sv / 100) \<le> service_w' * round_double (sv' / 100) \<longrightarrow>
      score_double dev sh sv' sharpe_w service_w' \<le> score_double dev sh sv sharpe_w service_w)"
proof (intro conjI impI)
  assume "dev \<le> dev'"
  then have "round_double (dev - round_double (sharpe_w * sh))
           \<le> round_double (dev' - round_double (sharpe_w * sh))"
    by (intro round_double_mono) simp
  then show "score_double dev sh sv sharpe_w service_w \<le> score_double dev' sh sv sharpe_w service_w"
    unfolding score_double_def by (intro round_double_mono) simp
next
  assume "sharpe_w * sh \<le> sharpe_w' * sh'"
  then have "round_double (sharpe_w * sh) \<le> round_double (sharpe_w' * sh')"
    by (rule round_double_mono)
  then have "round_double (dev - round_double (sharpe_w' * sh'))
           \<le> round_double (dev - round_double (sharpe_w * sh))"
    by (intro round_double_mono) simp
  then show "score_double dev sh' sv sharpe_w' service_w \<le> score_double dev sh sv sharpe_w service_w"
    unfolding score_double_def by (intro round_double_mono) simp
next
  assume "service_w * round_double (sv / 100) \<le> service_w' * round_double (sv' / 100)"
  then have "round_double (service_w * round_double (sv / 100))
           \<le> round_double (service_w' * round_double (sv' / 100))"
    by (rule round_double_mono)
  then show "score_double dev sh sv' sharpe_w service_w' \<le> score_double dev sh sv sharpe_w service_w"
    unfolding score_double_def by (intro round_double_mono) simp
qed

theorem C9_score_monotone_witness:
  "(1::real) \<le> 2 \<and> score_double 1 3 50 (1 / 2) 1 \<le> score_double 2 3 50 (1 / 2) 1 \<and>
   (1 / 2) * (3::real) \<le> 1 * 4 \<and> score_double 1 4 50 1 1 \<le> score_double 1 3 50 (1 / 2) 1 \<and>
   1 * round_double (50 / 100) \<le> 2 * round_double (60 / 100) \<and>
   score_double 1 3 60 (1 / 2) 2 \<le> score_double 1 3 50 (1 / 2) 1"
proof -
  have h: "1 * round_double (50 / 100) \<le> 2 * round_double (60 / 100)"
    by (simp add: double_eval)
  have a: "(1::real) \<le> 2" "(1 / 2) * (3::real) \<le> 1 * 4" by simp_all
  from C9_score_monotone [where dev = 1 and dev' = 2 and sh = 3 and sv = 50
      and sharpe_w = "1 / 2" and service_w = 1 and sharpe_w' = 1 and sh' = 4
      and service_w' = 2 and sv' = 60] h a
  show ?thesis by blast
qed

text \<open>
  The claim as stated fails in its last part: the code divides the blended service by 100
  and rounds before it multiplies, so the score is not a function of the product
  \<open>service_weight * blended service\<close>. With weights 3 and 1 and services 10 and 30 the
  products are equal and the scores are \<open>-0.30000000000000004\<close> and \<open>-0.3\<close>.
\<close>

theorem C9_counterexample:
  "(3::real) * 10 \<le> 1 * 30 \<and>
   score_double 0 0 10 0 3 = - (5404319552844596 / 2 ^ 54) \<and>
   score_double 0 0 30 0 1 = - (5404319552844595 / 2 ^ 54) \<and>
   \<not> score_double 0 0 30 0 1 \<le> score_double 0 0 10 0 3"
  by (simp add: double_eval)

section \<open>Properties of the candidate search\<close>

lemma length_combinations2: "length (combinations2 xs) = length xs choose 2"
  by (induction xs) (simp_all add: numeral_2_eq_2)

lemma fold_keep_best_Some:
  "\<exists>r. fold (\<lambda>x b. keep_best b (g x)) xs (Some b0) = Some r \<and>
       (r = b0 \<or> r \<in> g ` set xs) \<and> c_score r \<le> c_score b0 \<and>
       (\<forall>x \<in> set xs. c_score r \<le> c_score (g x))"
proof (induction xs arbitrary: b0)
  case Nil
  then show ?case by simp
next
  case (Cons x xs)
  define b1 where "b1 = (if c_score (g x) < c_score b0 then g x else b0)"
  have k: "keep_best (Some b0) (g x) = Some b1"
    by (simp add: keep_best_def b1_def)
  have le: "c_score b1 \<le> c_score b0" "c_score b1 \<le> c_score (g x)" "b1 = b0 \<or> b1 = g x"
    by (auto simp: b1_def)
  from Cons.IH[of b1] obtain r where
    r: "fold (\<lambda>x b. keep_best b (g x)) xs (Some b1) = Some r"
       "r = b1 \<or> r \<in> g ` set xs" "c_score r \<le> c_score b1"
       "\<forall>x \<in> set xs. c_score r \<le> c_score (g x)"
    by blast
  have "fold (\<lambda>x b. keep_best b (g x)) (x # xs) (Some b0) = Some r"
    using r(1) k by simp
  moreover have "r = b0 \<or> r \<in> g ` set (x # xs)" using r(2) le(3) by auto
  moreover have "c_score r \<le> c_score b0" using r(3) le(1) by simp
  moreover have "\<forall>y \<in> set (x # xs). c_score r \<le> c_score (g y)"
    using r(3,4) le(2) by auto
  ultimately show ?case by blast
qed

lemma fold_keep_best_None:
  assumes "xs \<noteq> []"
  shows "\<exists>x \<in> set xs. fold (\<lambda>x b. keep_best b (g x)) xs None = Some (g x) \<and>
           (\<forall>y \<in> set xs. c_score (g x) \<le> c_score (g y))"
proof -
  obtain x xs' where xs: "xs = x # xs'" using assms by (cases xs) auto
  from fold_keep_best_Some[of g xs' "g x"] obtain r where
    r: "fold (\<lambda>x b. keep_best b (g x)) xs' (Some (g x)) = Some r"
       "r = g x \<or> r \<in> g ` set xs'" "c_score r \<le> c_score (g x)"
       "\<forall>y \<in> set xs'. c_score r \<le> c_score (g y)"
    by blast
  have f: "fold (\<lambda>x b. keep_best b (g x)) xs None = Some r"
    using r(1) by (simp add: xs keep_best_def)
  from r(2) obtain z where z: "z \<in> set xs" "r = g z" using xs by auto
  with f r(3,4) xs show ?thesis by auto
qed

lemma grid_nonempty: "grid \<noteq> []"
  by (simp add: grid_def)

lemma best_pair_Some:
  "\<exists>w1 \<in> set grid.
     best_pair target tw sw vw sm d f1 f2 = Some (pair_candidate target tw sw vw sm d f1 f2 w1) \<and>
     (\<forall>w \<in> set grid. c_score (pair_candidate target tw sw vw sm d f1 f2 w1)
                     \<le> c_score (pair_candidate target tw sw vw sm d f1 f2 w))"
  unfolding best_pair_def
  by (rule fold_keep_best_None[OF grid_nonempty])

lemma concat_map_if_singleton:
  "concat (map (\<lambda>x. if P x then [] else [g x]) xs) = map g (filter (\<lambda>x. \<not> P x) xs)"
  by (induction xs) simp_all

lemma pool2_eq:
  "candidate_pool funds target tw sw vw sm d spo 2 =
     map (\<lambda>(f1, f2). the (best_pair target tw sw vw sm d f1 f2)) (eligible_pairs spo funds)"
proof -
  have a: "append_best (best_pair target tw sw vw sm d f1 f2) =
           [the (best_pair target tw sw vw sm d f1 f2)]" for f1 f2
    using best_pair_Some[of target tw sw vw sm d f1 f2] by (auto simp: append_best_def)
  have "candidate_pool funds target tw sw vw sm d spo 2 =
        concat (map (\<lambda>p. if spo \<and> provider (fst p) \<noteq> provider (snd p) then []
                          else [the (best_pair target tw sw vw sm d (fst p) (snd p))])
                 (combinations2 funds))"
    by (simp add: candidate_pool_def a split_def cong: if_cong)
  also have "\<dots> = map (\<lambda>p. the (best_pair target tw sw vw sm d (fst p) (snd p)))
                    (filter (\<lambda>p. \<not> (spo \<and> provider (fst p) \<noteq> provider (snd p)))
                       (combinations2 funds))"
    by (rule concat_map_if_singleton)
  finally show ?thesis by (simp add: eligible_pairs_def split_def)
qed

lemma combinations2_nonempty:
  assumes "2 \<le> length xs"
  shows "combinations2 xs \<noteq> []"
proof -
  from assms obtain a b ys where "xs = a # b # ys"
    by (metis Suc_le_length_iff numeral_2_eq_2)
  then show ?thesis by simp
qed

lemma c_funds_pair_candidate:
  "c_funds (pair_candidate target tw sw vw sm d f1 f2 w1) = [f1, f2]"
  by (simp add: pair_candidate_def Let_def)

lemma names_set_best_pair:
  "names_set (the (best_pair target tw sw vw sm d f1 f2)) = {name f1, name f2}"
  using best_pair_Some[of target tw sw vw sm d f1 f2]
  by (auto simp: names_set_def c_funds_pair_candidate)

text \<open>
  C6: with two funds per blend, the pool has one candidate for each pair the provider
  filter lets through, so at most \<open>C(F, 2)\<close> of them; that candidate is the pair at a weight
  of the 101-point grid whose score is least over the grid; and the pool is not empty when
  some pair passes the filter, in particular when there are two funds and no filter.
\<close>

theorem C6_pair_pool:
  "length (candidate_pool funds target tw sw vw sm d spo 2) = length (eligible_pairs spo funds) \<and>
   length (candidate_pool funds target tw sw vw sm d spo 2) \<le> length funds choose 2 \<and>
   length grid = 101 \<and>
   (\<forall>i < length (eligible_pairs spo funds).
      \<exists>w1 \<in> set grid.
        candidate_pool funds target tw sw vw sm d spo 2 ! i =
          pair_candidate target tw sw vw sm d
            (fst (eligible_pairs spo funds ! i)) (snd (eligible_pairs spo funds ! i)) w1 \<and>
        (\<forall>w \<in> set grid.
           c_score (candidate_pool funds target tw sw vw sm d spo 2 ! i) \<le>
           c_score (pair_candidate target tw sw vw sm d
                      (fst (eligible_pairs spo funds ! i)) (snd (eligible_pairs spo funds ! i)) w))) \<and>
   (eligible_pairs spo funds \<noteq> [] \<longrightarrow> candidate_pool funds target tw sw vw sm d spo 2 \<noteq> []) \<and>
   (2 \<le> length funds \<and> \<not> spo \<longrightarrow> candidate_pool funds target tw sw vw sm d spo 2 \<noteq> [])"
proof -
  let ?pool = "candidate_pool funds target tw sw vw sm d spo 2"
  let ?ps = "eligible_pairs spo funds"
  have len: "length ?pool = length ?ps" by (simp add: pool2_eq)
  have "length ?ps \<le> length (combinations2 funds)" by (simp add: eligible_pairs_def)
  then have le: "length ?pool \<le> length funds choose 2"
    by (simp add: len length_combinations2)
  have g: "length grid = 101" by (simp add: grid_def)
  have each: "\<exists>w1 \<in> set grid.
        ?pool ! i = pair_candidate target tw sw vw sm d (fst (?ps ! i)) (snd (?ps ! i)) w1 \<and>
        (\<forall>w \<in> set grid. c_score (?pool ! i) \<le>
           c_score (pair_candidate target tw sw vw sm d (fst (?ps ! i)) (snd (?ps ! i)) w))"
    if "i < length ?ps" for i
  proof -
    have "?pool ! i = the (best_pair target tw sw vw sm d (fst (?ps ! i)) (snd (?ps ! i)))"
      using that by (simp add: pool2_eq case_prod_beta)
    with best_pair_Some[of target tw sw vw sm d "fst (?ps ! i)" "snd (?ps ! i)"]
    show ?thesis by auto
  qed
  have ne: "?ps \<noteq> [] \<longrightarrow> ?pool \<noteq> []" using len by auto
  have "2 \<le> length funds \<and> \<not> spo \<longrightarrow> ?ps \<noteq> []"
    using combinations2_nonempty[of funds] by (auto simp: eligible_pairs_def)
  with len le g each ne show ?thesis by auto
qed

theorem C6_pair_pool_witness:
  "(0::nat) < length (eligible_pairs False [fund_x, fund_y, fund_z]) \<and>
   eligible_pairs False [fund_x, fund_y, fund_z] \<noteq> [] \<and>
   2 \<le> length [fund_x, fund_y, fund_z] \<and>
   length (candidate_pool [fund_x, fund_y, fund_z] example_target unit_weights 0 0 Map.empty 70 False 2) = 3 \<and>
   length (candidate_pool [fund_x, fund_y, fund_z] example_target unit_weights 0 0 Map.empty 70 False 2)
     \<le> length [fund_x, fund_y, fund_z] choose 2 \<and>
   candidate_pool [fund_x, fund_y, fund_z] example_target unit_weights 0 0 Map.empty 70 False 2 \<noteq> [] \<and>
   (\<exists>w1 \<in> set grid.
      candidate_pool [fund_x, fund_y, fund_z] example_target unit_weights 0 0 Map.empty 70 False 2 ! 0 =
        pair_candidate example_target unit_weights 0 0 Map.empty 70 fund_x fund_y w1 \<and>
      (\<forall>w \<in> set grid.
         c_score (candidate_pool [fund_x, fund_y, fund_z] example_target unit_weights 0 0 Map.empty 70 False 2 ! 0) \<le>
         c_score (pair_candidate example_target unit_weights 0 0 Map.empty 70 fund_x fund_y w)))"
proof -
  have e: "eligible_pairs False [fund_x, fund_y, fund_z] =
           [(fund_x, fund_y), (fund_x, fund_z), (fund_y, fund_z)]"
    by (simp add: eligible_pairs_def)
  have i: "(0::nat) < length (eligible_pairs False [fund_x, fund_y, fund_z])"
    by (simp add: e)
  have ne: "eligible_pairs False [fund_x, fund_y, fund_z] \<noteq> []"
    by (simp add: e)
  have f: "fst (eligible_pairs False [fund_x, fund_y, fund_z] ! 0) = fund_x"
          "snd (eligible_pairs False [fund_x, fund_y, fund_z] ! 0) = fund_y"
          "length (eligible_pairs False [fund_x, fund_y, fund_z]) = 3"
    by (simp_all add: e)
  note T = C6_pair_pool [where funds = "[fund_x, fund_y, fund_z]" and target = example_target
      and tw = unit_weights and sw = 0 and vw = 0 and sm = Map.empty and d = 70
      and spo = False]
  from T have len: "length (candidate_pool [fund_x, fund_y, fund_z] example_target
      unit_weights 0 0 Map.empty 70 False 2) = 3"
    unfolding f(3) by blast
  from T have le: "length (candidate_pool [fund_x, fund_y, fund_z] example_target
      unit_weights 0 0 Map.empty 70 False 2) \<le> length [fund_x, fund_y, fund_z] choose 2"
    by blast
  from T ne have pne: "candidate_pool [fund_x, fund_y, fund_z] example_target
      unit_weights 0 0 Map.empty 70 False 2 \<noteq> []"
    by blast
  from T i have "\<exists>w1 \<in> set grid.
      candidate_pool [fund_x, fund_y, fund_z] example_target unit_weights 0 0 Map.empty 70
        False 2 ! 0 =
        pair_candidate example_target unit_weights 0 0 Map.empty 70
          (fst (eligible_pairs False [fund_x, fund_y, fund_z] ! 0))
          (snd (eligible_pairs False [fund_x, fund_y, fund_z] ! 0)) w1 \<and>
      (\<forall>w \<in> set grid.
         c_score (candidate_pool [fund_x, fund_y, fund_z] example_target unit_weights 0 0
                    Map.empty 70 False 2 ! 0) \<le>
         c_score (pair_candidate example_target unit_weights 0 0 Map.empty 70
                    (fst (eligible_pairs False [fund_x, fund_y, fund_z] ! 0))
                    (snd (eligible_pairs False [fund_x, fund_y, fund_z] ! 0)) w))"
    by blast
  then have ex: "\<exists>w1 \<in> set grid.
      candidate_pool [fund_x, fund_y, fund_z] example_target unit_weights 0 0 Map.empty 70
        False 2 ! 0 =
        pair_candidate example_target unit_weights 0 0 Map.empty 70 fund_x fund_y w1 \<and>
      (\<forall>w \<in> set grid.
         c_score (candidate_pool [fund_x, fund_y, fund_z] example_target unit_weights 0 0
                    Map.empty 70 False 2 ! 0) \<le>
         c_score (pair_candidate example_target unit_weights 0 0 Map.empty 70
                    fund_x fund_y w))"
    unfolding f(1,2) .
  have l2: "2 \<le> length [fund_x, fund_y, fund_z]" by simp
  from i ne l2 len le pne ex show ?thesis by blast
qed












section \<open>Properties of the selector\<close>

lemma strict_pass_inv:
  assumes "strict_pass spo cs chosen up un = (chosen', up', un')"
    and "un = \<Union> (names_set ` set chosen)"
    and "sorted_wrt disjoint_names chosen"
    and "length chosen < 3"
  shows "un' = \<Union> (names_set ` set chosen') \<and> sorted_wrt disjoint_names chosen' \<and>
         length chosen' \<le> 3 \<and> (\<exists>ys. chosen' = chosen @ ys \<and> set ys \<subseteq> set cs)"
  using assms
proof (induction spo cs chosen up un rule: strict_pass.induct)
  case (1 spo chosen up un)
  then show ?case by auto
next
  case (2 spo c cs chosen up un)
  show ?case
  proof (cases "un \<inter> names_set c \<noteq> {} \<or> (\<not> spo \<and> up \<inter> prov_set c \<noteq> {})")
    case True
    with 2 show ?thesis by (auto split: if_splits)
  next
    case False
    have d: "sorted_wrt disjoint_names (chosen @ [c])"
      using False "2.prems"(2,3) by (auto simp: sorted_wrt_append)
    have u: "un \<union> names_set c = \<Union> (names_set ` set (chosen @ [c]))"
      using "2.prems"(2) by auto
    show ?thesis
    proof (cases "length (chosen @ [c]) = 3")
      case True
      with False "2.prems"(1) have "chosen' = chosen @ [c]" "un' = un \<union> names_set c"
        by (auto split: if_splits)
      with d "2.prems"(2) True show ?thesis by auto
    next
      case n3: False
      from n3 "2.prems"(4) have l: "length (chosen @ [c]) < 3" by simp
      from False n3 "2.prems"(1)
      have "strict_pass spo cs (chosen @ [c]) (up \<union> prov_set c) (un \<union> names_set c) = (chosen', up', un')"
        by (auto split: if_splits)
      from "2.IH"(3)[OF _ _ n3 this u d l] False
      show ?thesis by auto
    qed
  qed
qed

lemma relaxed_pass_inv:
  assumes "relaxed_pass cs chosen un = (chosen', un')"
    and "un = \<Union> (names_set ` set chosen)"
    and "sorted_wrt disjoint_names chosen"
    and "length chosen < 3"
  shows "un' = \<Union> (names_set ` set chosen') \<and> sorted_wrt disjoint_names chosen' \<and>
         length chosen' \<le> 3 \<and> (\<exists>ys. chosen' = chosen @ ys \<and> set ys \<subseteq> set cs) \<and>
         (length chosen' < 3 \<longrightarrow> (\<forall>c \<in> set cs. c \<in> set chosen' \<or> un' \<inter> names_set c \<noteq> {}))"
  using assms
proof (induction cs chosen un rule: relaxed_pass.induct)
  case (1 chosen un)
  then show ?case by auto
next
  case (2 c cs chosen un)
  show ?case
  proof (cases "c \<in> set chosen \<or> un \<inter> names_set c \<noteq> {}")
    case True
    then have "relaxed_pass cs chosen un = (chosen', un')"
      using "2.prems"(1) by (auto split: if_splits)
    then have r: "un' = \<Union> (names_set ` set chosen') \<and> sorted_wrt disjoint_names chosen' \<and>
         length chosen' \<le> 3 \<and> (\<exists>ys. chosen' = chosen @ ys \<and> set ys \<subseteq> set cs) \<and>
         (length chosen' < 3 \<longrightarrow> (\<forall>c \<in> set cs. c \<in> set chosen' \<or> un' \<inter> names_set c \<noteq> {}))"
      using 2 True by (auto split: if_splits)
    then obtain ys where ys: "chosen' = chosen @ ys" "set ys \<subseteq> set cs" by blast
    have "c \<in> set chosen' \<or> un' \<inter> names_set c \<noteq> {}"
      using True ys r "2.prems"(2) by auto
    with r ys show ?thesis by auto
  next
    case False
    have d: "sorted_wrt disjoint_names (chosen @ [c])"
      using False "2.prems"(2,3) by (auto simp: sorted_wrt_append)
    have u: "un \<union> names_set c = \<Union> (names_set ` set (chosen @ [c]))"
      using "2.prems"(2) by auto
    show ?thesis
    proof (cases "length (chosen @ [c]) = 3")
      case True
      with False "2.prems"(1) have "chosen' = chosen @ [c]" "un' = un \<union> names_set c"
        by (auto split: if_splits)
      with d "2.prems"(2) True show ?thesis by auto
    next
      case n3: False
      from n3 "2.prems"(4) have l: "length (chosen @ [c]) < 3" by simp
      from False n3 "2.prems"(1)
      have e: "relaxed_pass cs (chosen @ [c]) (un \<union> names_set c) = (chosen', un')"
        by (auto split: if_splits)
      have nc: "c \<notin> set chosen" and nu: "\<not> un \<inter> names_set c \<noteq> {}" using False by auto
      from "2.IH"(3)[OF nc nu n3 e u d l]
      show ?thesis by auto
    qed
  qed
qed


lemma strict_pass_head:
  assumes "strict_pass spo (c # cs) [] {} {} = (chosen, up, un)"
  shows "\<exists>ys. chosen = c # ys"
proof -
  from assms have "strict_pass spo cs [c] (prov_set c) (names_set c) = (chosen, up, un)"
    by simp
  from strict_pass_inv[OF this] show ?thesis by auto
qed

lemma two_passes_props:
  "sorted_wrt disjoint_names (two_passes spo cs) \<and>
   length (two_passes spo cs) \<le> 3 \<and>
   set (two_passes spo cs) \<subseteq> set cs \<and>
   (cs \<noteq> [] \<longrightarrow> two_passes spo cs \<noteq> [] \<and> hd (two_passes spo cs) = hd cs) \<and>
   (length (two_passes spo cs) < 3 \<longrightarrow>
      (\<forall>c \<in> set cs. c \<in> set (two_passes spo cs) \<or>
         (\<exists>d \<in> set (two_passes spo cs). names_set c \<inter> names_set d \<noteq> {})))"
proof -
  obtain chosen up un where s: "strict_pass spo cs [] {} {} = (chosen, up, un)"
    by (cases "strict_pass spo cs [] {} {}") auto
  from strict_pass_inv[OF s] have si: "un = \<Union> (names_set ` set chosen)"
    "sorted_wrt disjoint_names chosen" "length chosen \<le> 3" "set chosen \<subseteq> set cs"
    by auto
  have hd_s: "cs \<noteq> [] \<longrightarrow> (\<exists>ys. chosen = hd cs # ys)"
  proof (cases cs)
    case Nil
    then show ?thesis by simp
  next
    case (Cons c cs')
    with s strict_pass_head[of spo c cs' chosen up un] show ?thesis by simp
  qed
  show ?thesis
  proof (cases "length chosen < 3")
    case False
    then have "two_passes spo cs = chosen" by (simp add: two_passes_def s)
    with si hd_s False show ?thesis by auto
  next
    case True
    obtain chosen' un' where r: "relaxed_pass cs chosen un = (chosen', un')"
      by (cases "relaxed_pass cs chosen un") auto
    from True r have t: "two_passes spo cs = chosen'" by (simp add: two_passes_def s)
    from relaxed_pass_inv[OF r si(1) si(2) True]
    have ri: "un' = \<Union> (names_set ` set chosen')" "sorted_wrt disjoint_names chosen'"
      "length chosen' \<le> 3" "\<exists>ys. chosen' = chosen @ ys \<and> set ys \<subseteq> set cs"
      "length chosen' < 3 \<longrightarrow> (\<forall>c \<in> set cs. c \<in> set chosen' \<or> un' \<inter> names_set c \<noteq> {})"
      by auto
    have sub: "set chosen' \<subseteq> set cs" using ri(4) si(4) by auto
    have hd': "cs \<noteq> [] \<longrightarrow> chosen' \<noteq> [] \<and> hd chosen' = hd cs"
      using hd_s ri(4) by auto
    have "length chosen' < 3 \<longrightarrow>
      (\<forall>c \<in> set cs. c \<in> set chosen' \<or> (\<exists>d \<in> set chosen'. names_set c \<inter> names_set d \<noteq> {}))"
      using ri(5) ri(1) by blast
    with ri(2,3) sub hd' show ?thesis unfolding t by blast
  qed
qed

lemma diversified_select_two_passes: "diversified_select spo cs = two_passes spo cs"
  using two_passes_props[of spo cs]
  by (cases cs) (auto simp: diversified_select_def Let_def)



lemma insufficient_msg_nonempty: "insufficient_msg n len \<noteq> []"
  by (simp add: insufficient_msg_def)

lemma no_valid_msg_nonempty: "no_valid_msg \<noteq> []"
  by (simp add: no_valid_msg_def)

lemma sort_key_Nil_iff: "sort_key f xs = [] \<longleftrightarrow> xs = []"
  by (metis length_sort length_0_conv)

lemma compute_cases:
  "compute funds target target_weights sharpe_w service_w svc_map dflt_svc spo n =
     (if int (length funds) < n then ([], insufficient_msg n (length funds))
      else if candidate_pool funds target target_weights sharpe_w service_w svc_map dflt_svc
                spo n = []
      then ([], no_valid_msg)
      else (two_passes spo (sort_key c_score
              (candidate_pool funds target target_weights sharpe_w service_w svc_map dflt_svc
                 spo n)), []))"
  by (simp add: compute_def Let_def diversified_select_two_passes)

lemma hd_sort_key_min:
  assumes "xs \<noteq> []"
  shows "hd (sort_key f xs) \<in> set xs \<and> (\<forall>x \<in> set xs. f (hd (sort_key f xs)) \<le> f x)"
proof -
  obtain y ys where e: "sort_key f xs = y # ys"
    using assms by (cases "sort_key f xs") (auto simp: sort_key_Nil_iff)
  have "sorted (map f (y # ys))" using sorted_sort_key[of f xs] e by simp
  then have "\<forall>x \<in> set (y # ys). f y \<le> f x" by auto
  moreover have "set (y # ys) = set xs" using set_sort[of f xs] e by simp
  ultimately show ?thesis using e by auto
qed


lemma all_share_selects_one:
  assumes "pool \<noteq> []"
    and "\<forall>c \<in> set pool. \<forall>d \<in> set pool. names_set c \<inter> names_set d \<noteq> {}"
  shows "length (two_passes spo pool) = 1"
proof -
  let ?r = "two_passes spo pool"
  from two_passes_props[of spo pool] assms(1)
  have r: "sorted_wrt disjoint_names ?r" "set ?r \<subseteq> set pool" "?r \<noteq> []"
    by blast+
  have "\<not> 1 < length ?r"
  proof
    assume l: "1 < length ?r"
    then have "0 < length ?r" by linarith
    with l have "?r ! 0 \<in> set ?r" "?r ! 1 \<in> set ?r"
      by (simp_all only: nth_mem)
    then have "?r ! 0 \<in> set pool" "?r ! 1 \<in> set pool"
      using r(2) by blast+
    moreover have "disjoint_names (?r ! 0) (?r ! 1)"
      using r(1) l by (simp add: sorted_wrt_iff_nth_less)
    ultimately show False using assms(2) by blast
  qed
  with r(3) show ?thesis by (cases ?r) auto
qed

text \<open>
  The example catalog with two funds per blend: the pool has the three pairs, and any
  two of them share a fund, so one candidate is selected.
\<close>

lemma example_pairs_pool:
  "candidate_pool [fund_x, fund_y, fund_z] example_target unit_weights 0 0 Map.empty 70 False 2 =
     [the (best_pair example_target unit_weights 0 0 Map.empty 70 fund_x fund_y),
      the (best_pair example_target unit_weights 0 0 Map.empty 70 fund_x fund_z),
      the (best_pair example_target unit_weights 0 0 Map.empty 70 fund_y fund_z)]"
  by (simp add: pool2_eq eligible_pairs_def)

lemma example_pairs_selection:
  "length (two_passes False (sort_key c_score (candidate_pool [fund_x, fund_y, fund_z] example_target unit_weights 0 0 Map.empty 70 False 2))) = 1"
proof (rule all_share_selects_one)
  show "sort_key c_score (candidate_pool [fund_x, fund_y, fund_z] example_target unit_weights 0 0 Map.empty 70 False 2) \<noteq> []"
    by (simp add: sort_key_Nil_iff example_pairs_pool)
  show "\<forall>c \<in> set (sort_key c_score (candidate_pool [fund_x, fund_y, fund_z] example_target unit_weights 0 0 Map.empty 70 False 2)).
          \<forall>d \<in> set (sort_key c_score (candidate_pool [fund_x, fund_y, fund_z] example_target unit_weights 0 0 Map.empty 70 False 2)).
            names_set c \<inter> names_set d \<noteq> {}"
    unfolding set_sort example_pairs_pool
    by (simp add: names_set_best_pair fund_x_def fund_y_def fund_z_def)
qed

text \<open>Unfolding the definitions evaluates the search for single funds and the selection.\<close>

lemmas eval_defs =
  compute_def candidate_pool_def single_candidate_def blend_def deviation_def score_def
  dict_get_def diversified_select_def two_passes_def names_set_def prov_set_def Let_def
  fund_x_def fund_y_def fund_z_def example_target_def unit_weights_def

text \<open>
  C7: for every candidate pool, no fund name occurs in two different candidates of the
  selection the Diversified Selector returns; the same holds of the list \<open>compute\<close>
  returns.
\<close>

theorem C7_no_duplicate_fund_names:
  "(\<forall>i j. i < j \<and> j < length (diversified_select spo pool) \<longrightarrow>
      names_set (diversified_select spo pool ! i) \<inter>
      names_set (diversified_select spo pool ! j) = {}) \<and>
   (\<forall>i j. i < j \<and>
      j < length (fst (compute funds target target_weights sharpe_w service_w svc_map
                         dflt_svc spo n)) \<longrightarrow>
      names_set (fst (compute funds target target_weights sharpe_w service_w svc_map
                         dflt_svc spo n) ! i) \<inter>
      names_set (fst (compute funds target target_weights sharpe_w service_w svc_map
                         dflt_svc spo n) ! j) = {})"
proof -
  have d: "sorted_wrt disjoint_names (two_passes spo cs)" for cs
    using two_passes_props[of spo cs] by blast
  have n: "\<forall>i j. i < j \<and> j < length (two_passes spo cs) \<longrightarrow>
      names_set (two_passes spo cs ! i) \<inter> names_set (two_passes spo cs ! j) = {}" for cs
    using d[of cs] by (simp add: sorted_wrt_iff_nth_less)
  show ?thesis
    using n by (simp add: compute_cases diversified_select_two_passes)
qed

theorem C7_no_duplicate_fund_names_witness:
  "(0::nat) < 1 \<and>
   1 < length (diversified_select False (sort_key c_score (candidate_pool [fund_x, fund_y, fund_z] example_target unit_weights 0 0 Map.empty 70 False 1))) \<and>
   names_set (diversified_select False (sort_key c_score (candidate_pool [fund_x, fund_y, fund_z] example_target unit_weights 0 0 Map.empty 70 False 1)) ! 0) \<inter>
   names_set (diversified_select False (sort_key c_score (candidate_pool [fund_x, fund_y, fund_z] example_target unit_weights 0 0 Map.empty 70 False 1)) ! 1) = {}"
proof -
  have l: "1 < length (diversified_select False (sort_key c_score (candidate_pool [fund_x, fund_y, fund_z] example_target unit_weights 0 0 Map.empty 70 False 1)))"
    by (simp add: eval_defs)
  from C7_no_duplicate_fund_names
         [where spo = False and pool = "sort_key c_score (candidate_pool [fund_x, fund_y, fund_z] example_target unit_weights 0 0 Map.empty 70 False 1)", THEN conjunct1]
  have "names_set (diversified_select False (sort_key c_score (candidate_pool [fund_x, fund_y, fund_z] example_target unit_weights 0 0 Map.empty 70 False 1)) ! 0) \<inter>
        names_set (diversified_select False (sort_key c_score (candidate_pool [fund_x, fund_y, fund_z] example_target unit_weights 0 0 Map.empty 70 False 1)) ! 1) = {}"
    using l by blast
  with l show ?thesis by simp
qed

text \<open>
  C1, as the code has it: the Diversified Selector returns at most 3 candidates, and at
  least one when the pool is not empty; it returns fewer than 3 only if every candidate of
  the pool is selected or shares a fund name with a selected candidate. Both passes skip a
  candidate that repeats a fund name, so a pool of 3 or more can give fewer than 3.
\<close>

theorem C1_selector_size:
  "length (diversified_select spo pool) \<le> 3 \<and>
   (pool \<noteq> [] \<longrightarrow> diversified_select spo pool \<noteq> []) \<and>
   (length (diversified_select spo pool) < 3 \<longrightarrow>
      (\<forall>c \<in> set pool. c \<in> set (diversified_select spo pool) \<or>
         (\<exists>d \<in> set (diversified_select spo pool). names_set c \<inter> names_set d \<noteq> {})))"
  using two_passes_props[of spo pool] unfolding diversified_select_two_passes by blast


theorem C1_selector_size_witness:
  "sort_key c_score (candidate_pool [fund_x, fund_y, fund_z] example_target unit_weights 0 0 Map.empty 70 False 2) \<noteq> [] \<and>
   diversified_select False (sort_key c_score (candidate_pool [fund_x, fund_y, fund_z] example_target unit_weights 0 0 Map.empty 70 False 2)) \<noteq> [] \<and>
   length (diversified_select False (sort_key c_score (candidate_pool [fund_x, fund_y, fund_z] example_target unit_weights 0 0 Map.empty 70 False 2))) < 3 \<and>
   sort_key c_score (candidate_pool [fund_x, fund_y, fund_z] example_target unit_weights 0 0 Map.empty 70 False 2) ! 1 \<in> set (sort_key c_score (candidate_pool [fund_x, fund_y, fund_z] example_target unit_weights 0 0 Map.empty 70 False 2)) \<and>
   (sort_key c_score (candidate_pool [fund_x, fund_y, fund_z] example_target unit_weights 0 0 Map.empty 70 False 2) ! 1
      \<in> set (diversified_select False (sort_key c_score (candidate_pool [fund_x, fund_y, fund_z] example_target unit_weights 0 0 Map.empty 70 False 2))) \<or>
    (\<exists>d \<in> set (diversified_select False (sort_key c_score (candidate_pool [fund_x, fund_y, fund_z] example_target unit_weights 0 0 Map.empty 70 False 2))).
       names_set (sort_key c_score (candidate_pool [fund_x, fund_y, fund_z] example_target unit_weights 0 0 Map.empty 70 False 2) ! 1) \<inter> names_set d \<noteq> {}))"
proof -
  have p: "length (candidate_pool [fund_x, fund_y, fund_z] example_target unit_weights 0 0 Map.empty 70 False 2) = 3"
    by (simp add: example_pairs_pool)
  then have ne: "sort_key c_score (candidate_pool [fund_x, fund_y, fund_z] example_target unit_weights 0 0 Map.empty 70 False 2) \<noteq> []"
    by (simp add: sort_key_Nil_iff example_pairs_pool)
  have m: "sort_key c_score (candidate_pool [fund_x, fund_y, fund_z] example_target unit_weights 0 0 Map.empty 70 False 2) ! 1 \<in> set (sort_key c_score (candidate_pool [fund_x, fund_y, fund_z] example_target unit_weights 0 0 Map.empty 70 False 2))"
    by (rule nth_mem) (simp add: p)
  have l: "length (diversified_select False (sort_key c_score (candidate_pool [fund_x, fund_y, fund_z] example_target unit_weights 0 0 Map.empty 70 False 2))) < 3"
    by (simp add: diversified_select_two_passes example_pairs_selection)
  from C1_selector_size [where spo = False and pool = "sort_key c_score (candidate_pool [fund_x, fund_y, fund_z] example_target unit_weights 0 0 Map.empty 70 False 2)"] ne l m
  show ?thesis by blast
qed

text \<open>
  The claim as stated fails: with the three funds of the example catalog and two funds
  per blend, the sorted pool has the three pairs and the selection has one candidate.
\<close>

theorem C1_counterexample:
  "length (sort_key c_score (candidate_pool [fund_x, fund_y, fund_z] example_target unit_weights 0 0 Map.empty 70 False 2)) = 3 \<and>
   length (diversified_select False (sort_key c_score (candidate_pool [fund_x, fund_y, fund_z] example_target unit_weights 0 0 Map.empty 70 False 2))) = 1 \<and>
   fst (compute [fund_x, fund_y, fund_z] example_target unit_weights 0 0 Map.empty 70 False 2) = diversified_select False (sort_key c_score (candidate_pool [fund_x, fund_y, fund_z] example_target unit_weights 0 0 Map.empty 70 False 2)) \<and>
   \<not> (length (diversified_select False (sort_key c_score (candidate_pool [fund_x, fund_y, fund_z] example_target unit_weights 0 0 Map.empty 70 False 2))) < 3 \<longrightarrow>
        length (sort_key c_score (candidate_pool [fund_x, fund_y, fund_z] example_target unit_weights 0 0 Map.empty 70 False 2)) < 3)"
proof -
  have p: "length (sort_key c_score (candidate_pool [fund_x, fund_y, fund_z] example_target unit_weights 0 0 Map.empty 70 False 2)) = 3"
    by (simp add: example_pairs_pool)
  have l: "length (diversified_select False (sort_key c_score (candidate_pool [fund_x, fund_y, fund_z] example_target unit_weights 0 0 Map.empty 70 False 2))) = 1"
    by (simp add: diversified_select_two_passes example_pairs_selection)
  have "candidate_pool [fund_x, fund_y, fund_z] example_target unit_weights 0 0 Map.empty 70 False 2 \<noteq> []"
    by (simp add: example_pairs_pool)
  then have c: "fst (compute [fund_x, fund_y, fund_z] example_target unit_weights 0 0 Map.empty 70 False 2) = diversified_select False (sort_key c_score (candidate_pool [fund_x, fund_y, fund_z] example_target unit_weights 0 0 Map.empty 70 False 2))"
    by (simp add: compute_cases diversified_select_two_passes)
  from p l c show ?thesis by simp
qed

text \<open>
  C10: when the candidate pool is not empty, the first candidate returned is the head of
  the sorted pool, so its score is minimal in the pool; the two passes never leave the
  selection empty, so the take-top-3 branch does not replace it; and this selection is what
  \<open>compute\<close> returns, with the empty message.
\<close>

theorem C10_first_is_global_minimum:
  assumes "pool \<noteq> []"
  shows "two_passes spo (sort_key c_score pool) \<noteq> [] \<and>
         diversified_select spo (sort_key c_score pool) = two_passes spo (sort_key c_score pool) \<and>
         hd (diversified_select spo (sort_key c_score pool)) = hd (sort_key c_score pool) \<and>
         hd (diversified_select spo (sort_key c_score pool)) \<in> set pool \<and>
         (\<forall>c \<in> set pool. c_score (hd (diversified_select spo (sort_key c_score pool))) \<le> c_score c) \<and>
         (pool = candidate_pool funds target target_weights sharpe_w service_w svc_map dflt_svc spo n
            \<and> \<not> int (length funds) < n \<longrightarrow>
          compute funds target target_weights sharpe_w service_w svc_map dflt_svc spo n =
            (diversified_select spo (sort_key c_score pool), []))"
proof -
  have ne: "sort_key c_score pool \<noteq> []" using assms by (simp add: sort_key_Nil_iff)
  from two_passes_props[of spo "sort_key c_score pool"] ne
  have t: "two_passes spo (sort_key c_score pool) \<noteq> []"
    "hd (two_passes spo (sort_key c_score pool)) = hd (sort_key c_score pool)" by blast+
  from hd_sort_key_min[OF assms, of c_score] t assms show ?thesis
    by (simp add: diversified_select_two_passes compute_cases)
qed


theorem C10_first_is_global_minimum_witness:
  "candidate_pool [fund_x, fund_y, fund_z] example_target unit_weights 0 0 Map.empty 70 False 2 \<noteq> [] \<and>
   two_passes False (sort_key c_score (candidate_pool [fund_x, fund_y, fund_z] example_target unit_weights 0 0 Map.empty 70 False 2)) \<noteq> [] \<and>
   hd (diversified_select False (sort_key c_score (candidate_pool [fund_x, fund_y, fund_z] example_target unit_weights 0 0 Map.empty 70 False 2))) \<in> set (candidate_pool [fund_x, fund_y, fund_z] example_target unit_weights 0 0 Map.empty 70 False 2) \<and>
   \<not> int (length [fund_x, fund_y, fund_z]) < 2 \<and>
   compute [fund_x, fund_y, fund_z] example_target unit_weights 0 0 Map.empty 70 False 2 = (diversified_select False (sort_key c_score (candidate_pool [fund_x, fund_y, fund_z] example_target unit_weights 0 0 Map.empty 70 False 2)), [])"
proof -
  have ne: "candidate_pool [fund_x, fund_y, fund_z] example_target unit_weights 0 0 Map.empty 70 False 2 \<noteq> []"
    by (simp add: example_pairs_pool)
  have h: "\<not> int (length [fund_x, fund_y, fund_z]) < 2"
    by simp
  from C10_first_is_global_minimum [OF ne, where spo = False
      and funds = "[fund_x, fund_y, fund_z]" and target = example_target
      and target_weights = unit_weights and sharpe_w = 0 and service_w = 0
      and svc_map = Map.empty and dflt_svc = 70 and n = 2] ne h
  show ?thesis by blast
qed

section \<open>Properties of the entry point\<close>

text \<open>
  C2: of the pair \<open>compute\<close> returns, exactly one component is populated: the list of
  candidates is not empty, has at most 3 entries and the message is the empty string, or
  the list is empty and the message is not the empty string.
\<close>

theorem C2_exactly_one_populated:
  "(fst (compute funds target target_weights sharpe_w service_w svc_map dflt_svc spo n) \<noteq> [] \<and>
    length (fst (compute funds target target_weights sharpe_w service_w svc_map dflt_svc spo n)) \<le> 3 \<and>
    snd (compute funds target target_weights sharpe_w service_w svc_map dflt_svc spo n) = []) \<or>
   (fst (compute funds target target_weights sharpe_w service_w svc_map dflt_svc spo n) = [] \<and>
    snd (compute funds target target_weights sharpe_w service_w svc_map dflt_svc spo n) \<noteq> [])"
proof -
  let ?pool = "candidate_pool funds target target_weights sharpe_w service_w svc_map dflt_svc spo n"
  have "?pool \<noteq> [] \<Longrightarrow> two_passes spo (sort_key c_score ?pool) \<noteq> [] \<and>
        length (two_passes spo (sort_key c_score ?pool)) \<le> 3"
    using two_passes_props[of spo "sort_key c_score ?pool"] by (simp add: sort_key_Nil_iff)
  then show ?thesis
    by (simp add: compute_cases insufficient_msg_nonempty no_valid_msg_nonempty)
qed


theorem C2_exactly_one_populated_witness:
  "fst (compute [fund_x, fund_y, fund_z] example_target unit_weights 0 0 Map.empty 70 False 1) \<noteq> [] \<and>
   length (fst (compute [fund_x, fund_y, fund_z] example_target unit_weights 0 0 Map.empty 70 False 1)) \<le> 3 \<and>
   snd (compute [fund_x, fund_y, fund_z] example_target unit_weights 0 0 Map.empty 70 False 1) = [] \<and>
   fst (compute [fund_x] example_target unit_weights 0 0 Map.empty 70 False 2) = [] \<and>
   snd (compute [fund_x] example_target unit_weights 0 0 Map.empty 70 False 2) \<noteq> []"
proof -
  have a: "fst (compute [fund_x, fund_y, fund_z] example_target unit_weights 0 0 Map.empty 70 False 1) \<noteq> []"
    by (simp add: eval_defs)
  have b: "fst (compute [fund_x] example_target unit_weights 0 0 Map.empty 70 False 2) = []"
    by (simp add: compute_def)
  from C2_exactly_one_populated [where funds = "[fund_x, fund_y, fund_z]"
      and target = example_target and target_weights = unit_weights and sharpe_w = 0
      and service_w = 0 and svc_map = Map.empty and dflt_svc = 70 and spo = False and n = 1] a
    C2_exactly_one_populated [where funds = "[fund_x]" and target = example_target
      and target_weights = unit_weights and sharpe_w = 0 and service_w = 0
      and svc_map = Map.empty and dflt_svc = 70 and spo = False and n = 2] b
  show ?thesis by blast
qed

text \<open>
  C3: when the catalog has fewer than \<open>n\<close> funds, \<open>compute\<close> returns the empty list and
  the message of line 355, which is not empty; the result is fixed by \<open>n\<close> and the size of
  the catalog alone, as the test comes before the search.
\<close>

theorem C3_insufficient_catalog:
  assumes "int (length funds) < n"
  shows "compute funds target target_weights sharpe_w service_w svc_map dflt_svc spo n =
           ([], insufficient_msg n (length funds)) \<and>
         insufficient_msg n (length funds) \<noteq> []"
  using assms by (simp add: compute_def insufficient_msg_nonempty)

theorem C3_insufficient_catalog_witness:
  "int (length [fund_x]) < 2 \<and>
   compute [fund_x] example_target unit_weights 0 0 Map.empty 70 False 2 =
     ([], insufficient_msg 2 1) \<and>
   insufficient_msg 2 1 \<noteq> [] \<and>
   str_int 2 = ''2'' \<and> str_int (int 1) = ''1''"
proof -
  have h: "int (length [fund_x]) < 2" by simp
  have s: "str_int 2 = ''2''" "str_int (int 1) = ''1''" by code_simp+
  from C3_insufficient_catalog [OF h, where target = example_target
      and target_weights = unit_weights and sharpe_w = 0 and service_w = 0
      and svc_map = Map.empty and dflt_svc = 70 and spo = False] s
  show ?thesis by simp
qed




end
